theory Spec2Isabelle
  imports Complex_Main "HOL-Library.Log_Nat" "HOL-Library.Code_Target_Numeral"
begin

section \<open>JavaScript numbers\<close>

text \<open>
  Every quantity of \<^verbatim>\<open>src/index.ts\<close> (sampling rates, windows, timestamps) is a
  JavaScript \<^verbatim>\<open>number\<close>: an IEEE 754 binary64 value. A finite non-zero double, and
  positive zero, is \<open>Fin x\<close> with \<open>x\<close> the real number it denotes; negative zero, the
  two infinities and \<^verbatim>\<open>NaN\<close> are values of their own. The sum and the quotient of two
  numbers are the exact results rounded to the nearest double, ties to the even
  significand, with gradual underflow and with overflow to an infinity.
\<close>

datatype jsnum = Fin real | NegZero | PInf | NInf | NaN

text \<open>
  The binary exponent of a non-zero real: \<open>2 powi expo x \<le> \<bar>x\<bar> < 2 powi (expo x + 1)\<close>.
\<close>

definition expo :: "real \<Rightarrow> int" where
  "expo x =
     (if 1 \<le> \<bar>x\<bar> then int (floorlog 2 (nat \<lfloor>\<bar>x\<bar>\<rfloor>)) - 1
      else - int (floorlog 2 (nat (\<lceil>1 / \<bar>x\<bar>\<rceil> - 1))))"

text \<open>
  The distance between neighbouring doubles around \<open>x\<close>: 52 bits below the exponent, and
  \<open>2 powi - 1074\<close> throughout the subnormal range.
\<close>

definition quantum :: "real \<Rightarrow> real" where
  "quantum x = 2 powi (max (expo x) (- 1022) - 52)"

text \<open>The nearest integer, a tie going to the even one.\<close>

definition rne :: "real \<Rightarrow> int" where
  "rne y =
     (let f = \<lfloor>y\<rfloor>; d = y - of_int f
      in if d < 1 / 2 then f
         else if 1 / 2 < d then f + 1
         else if even f then f else f + 1)"

text \<open>
  The double nearest to a real. A result of magnitude \<open>2 ^ 1024\<close> or more is an infinity;
  a non-zero real that rounds to zero keeps its sign.
\<close>

definition round64 :: "real \<Rightarrow> jsnum" where
  "round64 x =
     (if x = 0 then Fin 0
      else
        let n = rne (\<bar>x\<bar> / quantum x)
        in if n = 0 then (if x < 0 then NegZero else Fin 0)
           else if 2 ^ 1024 \<le> of_int n * quantum x then (if x < 0 then NInf else PInf)
           else Fin (sgn x * (of_int n * quantum x)))"

text \<open>The reals that are doubles: rounding leaves them as they are.\<close>

definition is_double :: "real \<Rightarrow> bool" where
  "is_double x = (round64 x = Fin x)"

text \<open>\<^verbatim>\<open>a < b\<close>: false when either side is \<^verbatim>\<open>NaN\<close>; the two zeros compare equal.\<close>

fun js_less :: "jsnum \<Rightarrow> jsnum \<Rightarrow> bool" where
  "js_less NaN b = False"
| "js_less a NaN = False"
| "js_less PInf b = False"
| "js_less a NInf = False"
| "js_less NInf b = True"
| "js_less a PInf = True"
| "js_less (Fin a) (Fin b) = (a < b)"
| "js_less (Fin a) NegZero = (a < 0)"
| "js_less NegZero (Fin b) = (0 < b)"
| "js_less NegZero NegZero = False"

text \<open>\<^verbatim>\<open>a > b\<close>\<close>

definition js_greater :: "jsnum \<Rightarrow> jsnum \<Rightarrow> bool" where
  "js_greater a b = js_less b a"

text \<open>
  \<^verbatim>\<open>a === b\<close> on numbers: \<^verbatim>\<open>NaN\<close> equals nothing, and the two zeros are equal.
\<close>

fun unsigned_zero :: "jsnum \<Rightarrow> jsnum" where
  "unsigned_zero NegZero = Fin 0"
| "unsigned_zero a = a"

definition js_strict_eq :: "jsnum \<Rightarrow> jsnum \<Rightarrow> bool" where
  "js_strict_eq a b = (a \<noteq> NaN \<and> unsigned_zero a = unsigned_zero b)"

text \<open>
  \<^verbatim>\<open>a + b\<close>. Two finite numbers that cancel give positive zero; only the sum of two
  negative zeros is negative zero.
\<close>

fun js_add :: "jsnum \<Rightarrow> jsnum \<Rightarrow> jsnum" where
  "js_add NaN b = NaN"
| "js_add a NaN = NaN"
| "js_add PInf NInf = NaN"
| "js_add NInf PInf = NaN"
| "js_add PInf b = PInf"
| "js_add a PInf = PInf"
| "js_add NInf b = NInf"
| "js_add a NInf = NInf"
| "js_add (Fin a) (Fin b) = round64 (a + b)"
| "js_add (Fin a) NegZero = Fin a"
| "js_add NegZero (Fin b) = Fin b"
| "js_add NegZero NegZero = NegZero"

text \<open>
  \<^verbatim>\<open>a / b\<close>. A non-zero number over a zero is an infinity of the quotient's sign, a zero
  over a zero is \<^verbatim>\<open>NaN\<close>, and a zero quotient has the sign of the quotient.
\<close>

fun js_div :: "jsnum \<Rightarrow> jsnum \<Rightarrow> jsnum" where
  "js_div NaN b = NaN"
| "js_div a NaN = NaN"
| "js_div PInf PInf = NaN"
| "js_div PInf NInf = NaN"
| "js_div NInf PInf = NaN"
| "js_div NInf NInf = NaN"
| "js_div PInf (Fin b) = (if 0 \<le> b then PInf else NInf)"
| "js_div PInf NegZero = NInf"
| "js_div NInf (Fin b) = (if 0 \<le> b then NInf else PInf)"
| "js_div NInf NegZero = PInf"
| "js_div (Fin a) PInf = (if 0 \<le> a then Fin 0 else NegZero)"
| "js_div NegZero PInf = NegZero"
| "js_div (Fin a) NInf = (if 0 \<le> a then NegZero else Fin 0)"
| "js_div NegZero NInf = Fin 0"
| "js_div (Fin a) (Fin b) =
     (if b = 0 then (if a = 0 then NaN else if 0 < a then PInf else NInf)
      else if a = 0 then (if 0 < b then Fin 0 else NegZero)
      else round64 (a / b))"
| "js_div (Fin a) NegZero = (if a = 0 then NaN else if 0 < a then NInf else PInf)"
| "js_div NegZero (Fin b) = (if b = 0 then NaN else if 0 < b then NegZero else Fin 0)"
| "js_div NegZero NegZero = NaN"

text \<open>
  A number is at least a real bound: an infinite or finite value not below it
  (\<^verbatim>\<open>NaN\<close> is not).
\<close>

fun at_least :: "jsnum \<Rightarrow> real \<Rightarrow> bool" where
  "at_least (Fin y) b = (b \<le> y)"
| "at_least NegZero b = (b \<le> 0)"
| "at_least PInf b = True"
| "at_least NInf b = False"
| "at_least NaN b = False"

section \<open>Sampler: one rate limiter\<close>

text \<open>
  \<^verbatim>\<open>class Sampler\<close>: the window between two admissions and the next instant at which a
  call is admitted.
\<close>

record Sampler =
  traceWindow :: jsnum
  nextTraceStart :: jsnum

text \<open>
  The constructor. The rate is capped at 1000 samples per second; the window is
  \<^verbatim>\<open>1000 / samplesPerSecond\<close>. The default of the second argument, \<^verbatim>\<open>Date.now()\<close>,
  is a clock reading that the caller passes.
\<close>

definition Sampler_new :: "jsnum \<Rightarrow> jsnum \<Rightarrow> Sampler" where
  "Sampler_new samplesPerSecondInput start =
     (let rate = (if js_greater samplesPerSecondInput (Fin 1000) then Fin 1000
                  else samplesPerSecondInput)
      in \<lparr>traceWindow = js_div (Fin 1000) rate, nextTraceStart = start\<rparr>)"

text \<open>\<^verbatim>\<open>Sampler.shouldTrace(dateMillis)\<close>: the result and the limiter after the call.\<close>

definition Sampler_shouldTrace :: "Sampler \<Rightarrow> jsnum \<Rightarrow> bool \<times> Sampler" where
  "Sampler_shouldTrace s dateMillis =
     (if js_less dateMillis (nextTraceStart s) then (False, s)
      else (True, s\<lparr>nextTraceStart := js_add dateMillis (traceWindow s)\<rparr>))"

text \<open>
  A sequence of calls on one limiter, in order: the results and the limiter after the last
  call.
\<close>

fun Sampler_calls :: "Sampler \<Rightarrow> jsnum list \<Rightarrow> bool list \<times> Sampler" where
  "Sampler_calls s [] = ([], s)"
| "Sampler_calls s (t # ts) =
     (case Sampler_shouldTrace s t of
        (b, s') \<Rightarrow> (case Sampler_calls s' ts of (bs, s'') \<Rightarrow> (b # bs, s'')))"


section \<open>Requests\<close>

text \<open>
  \<^verbatim>\<open>RequestDetails\<close>, \<^verbatim>\<open>TraceContext\<close> and \<^verbatim>\<open>SpanOptions\<close> are types of the trace agent,
  imported by the source. The fields the source reads are \<^verbatim>\<open>timestamp\<close>,
  \<^verbatim>\<open>traceContext?.options\<close> (the trace-options flag of the propagated header, a
  non-negative integer) and \<^verbatim>\<open>options?.name\<close> (the name of the span); the URL and the
  method are read by the agent's built-in filter only.
\<close>

record trace_context =
  traceId :: string
  spanId :: string
  tc_options :: "nat option"

record span_options =
  so_name :: "string option"

record request_details =
  timestamp :: jsnum
  url :: string
  http_method :: string
  traceContext :: "trace_context option"
  rd_options :: "span_options option"

text \<open>\<^verbatim>\<open>options?.name\<close>\<close>

definition options_name :: "request_details \<Rightarrow> string option" where
  "options_name details =
     (case rd_options details of None \<Rightarrow> None | Some opts \<Rightarrow> so_name opts)"

text \<open>
  \<^verbatim>\<open>details.traceContext?.options\<close> as a condition: a flag that is present and not zero.
\<close>

definition traceContext_options_truthy :: "request_details \<Rightarrow> bool" where
  "traceContext_options_truthy details =
     (case traceContext details of
        None \<Rightarrow> False
      | Some tc \<Rightarrow> (case tc_options tc of None \<Rightarrow> False | Some flag \<Rightarrow> flag \<noteq> 0))"

section \<open>MultiSampler: one limiter per name\<close>

text \<open>
  \<^verbatim>\<open>samplers\<close> is a plain object, created as \<^verbatim>\<open>{}\<close>: reading \<^verbatim>\<open>this.samplers[name]\<close>
  finds the object's own property of that name or else a property inherited from
  \<^verbatim>\<open>Object.prototype\<close>. The map holds the own properties; the inherited ones are these.
\<close>

definition Object_prototype_keys :: "string list" where
  "Object_prototype_keys =
     [''constructor'', ''__defineGetter__'', ''__defineSetter__'', ''hasOwnProperty'',
      ''__lookupGetter__'', ''__lookupSetter__'', ''isPrototypeOf'',
      ''propertyIsEnumerable'', ''toString'', ''valueOf'', ''__proto__'',
      ''toLocaleString'']"

datatype js_error = TypeError

record MultiSampler =
  samplers :: "string \<rightharpoonup> Sampler"
  samplesPerSecond :: jsnum
  unnamedSampler :: Sampler
  samplerStart :: jsnum

text \<open>
  The constructor reads the clock twice: \<open>now1\<close> is the \<^verbatim>\<open>Date.now()\<close> that seeds the
  unnamed limiter, \<open>now2\<close> the \<^verbatim>\<open>new Date().getTime()\<close> stored as \<^verbatim>\<open>samplerStart\<close>.
\<close>

definition MultiSampler_new :: "jsnum \<Rightarrow> jsnum \<Rightarrow> jsnum \<Rightarrow> MultiSampler" where
  "MultiSampler_new samplesPerSecondInput now1 now2 =
     (let rate = (if js_greater samplesPerSecondInput (Fin 1000) then Fin 1000
                  else samplesPerSecondInput)
      in \<lparr>samplers = Map.empty, samplesPerSecond = rate,
          unnamedSampler = Sampler_new rate now1, samplerStart = now2\<rparr>)"

text \<open>
  What \<^verbatim>\<open>getSampler\<close> returns: the unnamed limiter, the limiter stored under a name
  (an object shared with the map, so a reference to the entry), or the value of an
  inherited property, which is truthy and is not a \<^verbatim>\<open>Sampler\<close>.
\<close>

datatype sampler_ref = Unnamed | Named string | Inherited string

definition getSampler :: "MultiSampler \<Rightarrow> string option \<Rightarrow> sampler_ref \<times> MultiSampler" where
  "getSampler m name =
     (case name of
        None \<Rightarrow> (Unnamed, m)
      | Some n \<Rightarrow>
          if n = [] then (Unnamed, m)
          else (case samplers m n of
                  Some s \<Rightarrow> (Named n, m)
                | None \<Rightarrow>
                    if n \<in> set Object_prototype_keys then (Inherited n, m)
                    else (Named n,
                          m\<lparr>samplers := (samplers m)(n \<mapsto>
                               Sampler_new (samplesPerSecond m) (samplerStart m))\<rparr>)))"

text \<open>
  \<^verbatim>\<open>MultiSampler.shouldTrace\<close>. Calling \<^verbatim>\<open>shouldTrace\<close> on an inherited property's
  value throws a \<^verbatim>\<open>TypeError\<close> (it has no such method); nothing has been assigned by
  then.
\<close>

definition MultiSampler_shouldTrace ::
  "MultiSampler \<Rightarrow> request_details \<Rightarrow> js_error + bool \<times> MultiSampler" where
  "MultiSampler_shouldTrace m details =
     (case getSampler m (options_name details) of
        (Unnamed, m') \<Rightarrow>
          (case Sampler_shouldTrace (unnamedSampler m') (timestamp details) of
             (b, s') \<Rightarrow> Inr (b, m'\<lparr>unnamedSampler := s'\<rparr>))
      | (Named n, m') \<Rightarrow>
          (case samplers m' n of
             None \<Rightarrow> Inl TypeError
           | Some s \<Rightarrow>
               (case Sampler_shouldTrace s (timestamp details) of
                  (b, s') \<Rightarrow> Inr (b, m'\<lparr>samplers := (samplers m')(n \<mapsto> s')\<rparr>)))
      | (Inherited n, m') \<Rightarrow> Inl TypeError)"

text \<open>
  One call as its caller sees it: the boolean or the exception, and the registry
  afterwards (as it was when the call threw). Then a sequence of calls, in order.
\<close>

definition MultiSampler_call ::
  "MultiSampler \<Rightarrow> request_details \<Rightarrow> (js_error + bool) \<times> MultiSampler" where
  "MultiSampler_call m details =
     (case MultiSampler_shouldTrace m details of
        Inl e \<Rightarrow> (Inl e, m)
      | Inr (b, m') \<Rightarrow> (Inr b, m'))"

fun MultiSampler_calls ::
  "MultiSampler \<Rightarrow> request_details list \<Rightarrow> (js_error + bool) list \<times> MultiSampler" where
  "MultiSampler_calls m [] = ([], m)"
| "MultiSampler_calls m (d # ds) =
     (case MultiSampler_call m d of
        (r, m') \<Rightarrow> (case MultiSampler_calls m' ds of (rs, m'') \<Rightarrow> (r # rs, m'')))"

text \<open>
  The key a request is limited under: its name, or none when the name is missing or
  empty. The limiter the registry holds for a key.
\<close>

definition endpoint_key :: "request_details \<Rightarrow> string option" where
  "endpoint_key details =
     (case options_name details of
        None \<Rightarrow> None
      | Some n \<Rightarrow> if n = [] then None else Some n)"

definition limiter_of :: "MultiSampler \<Rightarrow> string option \<Rightarrow> Sampler option" where
  "limiter_of m k = (case k of None \<Rightarrow> Some (unnamedSampler m) | Some n \<Rightarrow> samplers m n)"

section \<open>EndToEndTracePolicy: the decision\<close>

text \<open>
  The objects the field \<^verbatim>\<open>sampler\<close> is assigned: \<^verbatim>\<open>{ shouldTrace: () => true }\<close>,
  \<^verbatim>\<open>{ shouldTrace: () => false }\<close>, or a \<^verbatim>\<open>MultiSampler\<close>.
\<close>

datatype TracePolicy = ConstTrue | ConstFalse | Keyed MultiSampler

definition TracePolicy_shouldTrace ::
  "TracePolicy \<Rightarrow> request_details \<Rightarrow> js_error + bool \<times> TracePolicy" where
  "TracePolicy_shouldTrace pol details =
     (case pol of
        ConstTrue \<Rightarrow> Inr (True, ConstTrue)
      | ConstFalse \<Rightarrow> Inr (False, ConstFalse)
      | Keyed m \<Rightarrow>
          (case MultiSampler_shouldTrace m details of
             Inl e \<Rightarrow> Inl e
           | Inr (b, m') \<Rightarrow> Inr (b, Keyed m')))"

record config =
  ignoreMethods :: "string list"
  ignoreUrls :: "string list"
  samplingRate :: jsnum

record EndToEndTracePolicy =
  builtinTracePolicy :: "request_details \<Rightarrow> bool"
  sampler :: TracePolicy

text \<open>
  The constructor. \<open>BuiltinTracePolicy\<close> is the trace agent's class, applied to the two
  ignore lists: built with \<^verbatim>\<open>samplingRate: 0\<close> and \<^verbatim>\<open>contextHeaderBehavior: IGNORE\<close>
  it keeps no state, so it is a predicate on requests. The field \<^verbatim>\<open>sampler\<close> is assigned
  in the \<^verbatim>\<open>if\<close> chain (lines 162 to 168) and assigned again after it (line 170).
  \<open>early1\<close> and \<open>early2\<close> are the clock readings of the registry built inside the chain,
  \<open>now1\<close> and \<open>now2\<close> those of the registry built after it.
\<close>

definition EndToEndTracePolicy_new ::
  "(string list \<Rightarrow> string list \<Rightarrow> request_details \<Rightarrow> bool) \<Rightarrow> config \<Rightarrow>
   jsnum \<Rightarrow> jsnum \<Rightarrow> jsnum \<Rightarrow> jsnum \<Rightarrow> EndToEndTracePolicy" where
  "EndToEndTracePolicy_new BuiltinTracePolicy cfg early1 early2 now1 now2 =
     (let this0 = \<lparr>builtinTracePolicy = BuiltinTracePolicy (ignoreMethods cfg) (ignoreUrls cfg),
                   sampler =
                     (if js_strict_eq (samplingRate cfg) (Fin 0) then ConstTrue
                      else if js_less (samplingRate cfg) (Fin 0) then ConstFalse
                      else Keyed (MultiSampler_new (samplingRate cfg) early1 early2))\<rparr>
      in this0\<lparr>sampler := Keyed (MultiSampler_new (samplingRate cfg) now1 now2)\<rparr>)"

text \<open>\<^verbatim>\<open>EndToEndTracePolicy.shouldTrace\<close>\<close>

definition EndToEndTracePolicy_shouldTrace ::
  "EndToEndTracePolicy \<Rightarrow> request_details \<Rightarrow> js_error + bool \<times> EndToEndTracePolicy" where
  "EndToEndTracePolicy_shouldTrace p details =
     (if \<not> builtinTracePolicy p details then Inr (False, p)
      else if traceContext_options_truthy details then Inr (True, p)
      else (case TracePolicy_shouldTrace (sampler p) details of
              Inl e \<Rightarrow> Inl e
            | Inr (b, pol') \<Rightarrow> Inr (b, p\<lparr>sampler := pol'\<rparr>)))"

text \<open>
  One call as its caller sees it, and a sequence of calls: only the outcomes.
\<close>

definition EndToEndTracePolicy_call ::
  "EndToEndTracePolicy \<Rightarrow> request_details \<Rightarrow> (js_error + bool) \<times> EndToEndTracePolicy" where
  "EndToEndTracePolicy_call p details =
     (case EndToEndTracePolicy_shouldTrace p details of
        Inl e \<Rightarrow> (Inl e, p)
      | Inr (b, p') \<Rightarrow> (Inr b, p'))"

fun EndToEndTracePolicy_calls ::
  "EndToEndTracePolicy \<Rightarrow> request_details list \<Rightarrow> (js_error + bool) list" where
  "EndToEndTracePolicy_calls p [] = []"
| "EndToEndTracePolicy_calls p (d # ds) =
     (case EndToEndTracePolicy_call p d of (r, p') \<Rightarrow> r # EndToEndTracePolicy_calls p' ds)"

text \<open>A request with a name, a timestamp and a trace-options flag, for the examples.\<close>

definition request :: "string option \<Rightarrow> real \<Rightarrow> nat option \<Rightarrow> request_details" where
  "request name t flag =
     \<lparr>timestamp = Fin t, url = ''/'', http_method = ''GET'',
      traceContext =
        (case flag of
           None \<Rightarrow> None
         | Some f \<Rightarrow> Some \<lparr>traceId = ''0af7651916cd43dd8448eb211c80319c'',
                            spanId = ''b7ad6b7169203331'', tc_options = Some f\<rparr>),
      rd_options = Some \<lparr>so_name = name\<rparr>\<rparr>"

text \<open>
  A policy for the examples: the agent's filter is stood in for by plain membership in
  the two ignore lists, and every clock reading of the constructor is 0.
\<close>

definition example_policy :: "real \<Rightarrow> EndToEndTracePolicy" where
  "example_policy rate =
     EndToEndTracePolicy_new (\<lambda>ms us d. http_method d \<notin> set ms \<and> url d \<notin> set us)
       \<lparr>ignoreMethods = [''OPTIONS''], ignoreUrls = [''/healthz''], samplingRate = Fin rate\<rparr>
       (Fin 0) (Fin 0) (Fin 0) (Fin 0)"

text \<open>
  Two registries agree on a key when they hold the same limiter for it and have the same
  rate and start: what a call with that key reads.
\<close>

definition agree_on :: "string option \<Rightarrow> MultiSampler \<Rightarrow> MultiSampler \<Rightarrow> bool" where
  "agree_on k m1 m2 =
     (limiter_of m1 k = limiter_of m2 k \<and> samplesPerSecond m1 = samplesPerSecond m2
      \<and> samplerStart m1 = samplerStart m2)"

section \<open>Rounding to a double\<close>

lemma expo_bounds:
  assumes "x \<noteq> 0"
  shows "2 powi (expo x) \<le> \<bar>x\<bar>" and "\<bar>x\<bar> < 2 powi (expo x + 1)"
proof -
  have "2 powi (expo x) \<le> \<bar>x\<bar> \<and> \<bar>x\<bar> < 2 powi (expo x + 1)"
  proof (cases "1 \<le> \<bar>x\<bar>")
    case True
    define n where "n = nat \<lfloor>\<bar>x\<bar>\<rfloor>"
    define k where "k = floorlog 2 n"
    have n: "0 < n" using True by (simp add: n_def)
    have "real n = of_int \<lfloor>\<bar>x\<bar>\<rfloor>"
      using True by (simp add: n_def)
    then have nx: "real n \<le> \<bar>x\<bar>" "\<bar>x\<bar> < real n + 1"
      by linarith+
    from floorlog_bounds [of n 2] n
    have b: "2 ^ (k - 1) \<le> n" "n < 2 ^ k" by (simp_all add: k_def)
    have k: "0 < k" using n by (simp add: k_def floorlog_def)
    have e: "expo x = int k - 1" using True by (simp add: expo_def n_def k_def)
    have "(2::real) ^ (k - 1) \<le> real n"
      using of_nat_mono [OF b(1), where 'a = real] by simp
    then have lo: "(2::real) ^ (k - 1) \<le> \<bar>x\<bar>" using nx(1) by linarith
    have "Suc n \<le> 2 ^ k" using b(2) by simp
    then have "real n + 1 \<le> 2 ^ k"
      using of_nat_mono [of "Suc n" "2 ^ k", where 'a = real] by simp
    then have hi: "\<bar>x\<bar> < (2::real) ^ k" using nx(2) by linarith
    have p1: "(2::real) powi (int k - 1) = 2 ^ (k - 1)"
      using k by (simp add: power_int_def nat_diff_distrib')
    have p2: "(2::real) powi (int k - 1 + 1) = 2 ^ k" by simp
    show ?thesis unfolding e p1 p2 using lo hi by simp
  next
    case False
    define z where "z = 1 / \<bar>x\<bar>"
    define n where "n = nat (\<lceil>z\<rceil> - 1)"
    define k where "k = floorlog 2 n"
    have xpos: "0 < \<bar>x\<bar>" using assms by simp
    have z1: "1 < z" using False xpos by (simp add: z_def)
    then have c2: "2 \<le> \<lceil>z\<rceil>" by linarith
    have n: "0 < n" using c2 by (simp add: n_def)
    have rn: "real n = of_int \<lceil>z\<rceil> - 1" using c2 by (simp add: n_def)
    have nz: "real n < z" "z \<le> real n + 1" unfolding rn by linarith+
    from floorlog_bounds [of n 2] n
    have b: "2 ^ (k - 1) \<le> n" "n < 2 ^ k" by (simp_all add: k_def)
    have k: "0 < k" using n by (simp add: k_def floorlog_def)
    have e: "expo x = - int k" using False by (simp add: expo_def n_def k_def z_def)
    have "(2::real) ^ (k - 1) \<le> real n"
      using of_nat_mono [OF b(1), where 'a = real] by simp
    then have lo: "(2::real) ^ (k - 1) < z" using nz(1) by linarith
    have "Suc n \<le> 2 ^ k" using b(2) by simp
    then have "real n + 1 \<le> 2 ^ k"
      using of_nat_mono [of "Suc n" "2 ^ k", where 'a = real] by simp
    then have hi: "z \<le> (2::real) ^ k" using nz(2) by linarith
    have xz: "\<bar>x\<bar> = 1 / z" using xpos by (simp add: z_def)
    have p1: "(2::real) powi (- int k) = 1 / 2 ^ k"
      by (simp add: power_int_minus divide_inverse)
    have "- int k + 1 = - int (k - 1)" using k by simp
    then have p2: "(2::real) powi (- int k + 1) = 1 / 2 ^ (k - 1)"
      by (simp only: power_int_minus power_int_of_nat divide_inverse mult_1)
    have a1: "1 / 2 ^ k \<le> 1 / z"
      using hi z1 by (intro divide_left_mono) simp_all
    have a2: "1 / z < 1 / 2 ^ (k - 1)"
      using lo z1 by (intro divide_strict_left_mono mult_pos_pos) simp_all
    show ?thesis unfolding e p1 p2 xz using a1 a2 by simp
  qed
  then show "2 powi (expo x) \<le> \<bar>x\<bar>" and "\<bar>x\<bar> < 2 powi (expo x + 1)" by simp_all
qed

lemma expo_eqI:
  assumes "2 powi e \<le> \<bar>x\<bar>" and "\<bar>x\<bar> < 2 powi (e + 1)"
  shows "expo x = e"
proof -
  have "0 < \<bar>x\<bar>"
    using assms(1) zero_less_power_int [of "2::real" e] by linarith
  then have x: "x \<noteq> 0" by simp
  from expo_bounds [OF x] assms
  have "(2::real) powi e < 2 powi (expo x + 1)" "(2::real) powi (expo x) < 2 powi (e + 1)"
    by linarith+
  then have "e < expo x + 1" "expo x < e + 1"
    by (metis linorder_not_less one_less_numeral_iff power_int_increasing semiring_norm(76)
        less_eq_real_def)+
  then show ?thesis by simp
qed

lemma expo_mono:
  assumes "x \<noteq> 0" and "\<bar>x\<bar> \<le> \<bar>y\<bar>"
  shows "expo x \<le> expo y"
proof -
  from assms have y: "y \<noteq> 0" by auto
  from expo_bounds(1) [OF assms(1)] expo_bounds(2) [OF y] assms(2)
  have "(2::real) powi (expo x) < 2 powi (expo y + 1)" by linarith
  then have "expo x < expo y + 1"
    by (metis linorder_not_less one_less_numeral_iff power_int_increasing semiring_norm(76)
        less_eq_real_def)
  then show ?thesis by simp
qed

lemma rne_ge_floor: "\<lfloor>y\<rfloor> \<le> rne y"
  by (simp add: rne_def Let_def)

lemma rne_le_ceiling: "rne y \<le> \<lceil>y\<rceil>"
proof -
  have "y = of_int \<lfloor>y\<rfloor> \<or> \<lceil>y\<rceil> = \<lfloor>y\<rfloor> + 1"
    by (metis ceiling_altdef of_int_floor_cancel)
  moreover have "y = of_int \<lfloor>y\<rfloor> \<Longrightarrow> rne y = \<lfloor>y\<rfloor>"
    by (simp add: rne_def Let_def)
  moreover have "rne y \<le> \<lfloor>y\<rfloor> + 1"
    by (simp add: rne_def Let_def)
  ultimately show ?thesis
    by (metis ceiling_altdef order_refl of_int_floor_cancel)
qed

lemma rne_of_int: "rne (of_int k) = k"
  by (simp add: rne_def Let_def)

lemma int_le_rne: "of_int k \<le> y \<Longrightarrow> k \<le> rne y"
proof -
  assume "of_int k \<le> y"
  then have "k \<le> \<lfloor>y\<rfloor>" by (simp add: le_floor_iff)
  with rne_ge_floor [of y] show ?thesis by linarith
qed

lemma rne_le_int: "y \<le> of_int k \<Longrightarrow> rne y \<le> k"
proof -
  assume "y \<le> of_int k"
  then have "\<lceil>y\<rceil> \<le> k" by (simp add: ceiling_le_iff)
  with rne_le_ceiling [of y] show ?thesis by linarith
qed

lemma quantum_pos: "0 < quantum x"
  by (simp add: quantum_def)

lemma quantum_mono: "x \<noteq> 0 \<Longrightarrow> \<bar>x\<bar> \<le> \<bar>y\<bar> \<Longrightarrow> quantum x \<le> quantum y"
  unfolding quantum_def by (intro power_int_increasing) (use expo_mono [of x y] in auto)

lemma round64_pos:
  "0 < x \<Longrightarrow> round64 x =
     (if rne (x / quantum x) = 0 then Fin 0
      else if 2 ^ 1024 \<le> of_int (rne (x / quantum x)) * quantum x then PInf
      else Fin (of_int (rne (x / quantum x)) * quantum x))"
  by (simp add: round64_def Let_def)

lemma round64_neg:
  "x < 0 \<Longrightarrow> round64 x =
     (if rne (- x / quantum x) = 0 then NegZero
      else if 2 ^ 1024 \<le> of_int (rne (- x / quantum x)) * quantum x then NInf
      else Fin (- (of_int (rne (- x / quantum x)) * quantum x)))"
  by (simp add: round64_def Let_def)

lemma double_decomp:
  assumes "is_double d" and "d \<noteq> 0"
  obtains m :: int where "0 < m" and "\<bar>d\<bar> = of_int m * quantum d" and "\<bar>d\<bar> < 2 ^ 1024"
proof -
  define m where "m = rne (\<bar>d\<bar> / quantum d)"
  have nonneg: "0 \<le> m"
    unfolding m_def using quantum_pos [of d] by (intro int_le_rne) simp
  from assms have r: "round64 d = Fin d" by (simp add: is_double_def)
  have m0: "m \<noteq> 0"
    using r assms(2) by (auto simp: round64_def Let_def m_def split: if_splits)
  have no: "\<not> 2 ^ 1024 \<le> of_int m * quantum d"
    using r assms(2) by (auto simp: round64_def Let_def m_def split: if_splits)
  have "sgn d * (of_int m * quantum d) = d"
    using r assms(2) m0 no by (auto simp: round64_def Let_def m_def split: if_splits)
  then have "\<bar>d\<bar> = \<bar>sgn d * (of_int m * quantum d)\<bar>" by simp
  also have "\<dots> = of_int m * quantum d"
    using nonneg quantum_pos [of d] assms(2) by (simp add: abs_mult abs_sgn_eq)
  finally have eq: "\<bar>d\<bar> = of_int m * quantum d" .
  show thesis
    by (rule that [of m]) (use nonneg m0 eq no in simp_all)
qed

lemma quantum_ratio:
  assumes "quantum x \<le> quantum y"
  obtains k :: nat where "quantum y = 2 ^ k * quantum x"
proof -
  define a where "a = max (expo x) (- 1022) - 52"
  define b where "b = max (expo y) (- 1022) - 52"
  have ab: "a \<le> b"
  proof (rule ccontr)
    assume "\<not> a \<le> b"
    then have "b < a" by simp
    then have "(2::real) powi b < 2 powi a" by (intro power_int_strict_increasing) simp_all
    with assms show False by (simp add: quantum_def a_def b_def)
  qed
  have "(2::real) powi b = 2 powi (b - a) * 2 powi a"
    by (simp flip: power_int_add)
  also have "(2::real) powi (b - a) = 2 ^ nat (b - a)"
    using ab by (simp add: power_int_def)
  finally show thesis
    by (intro that [of "nat (b - a)"]) (simp add: quantum_def a_def b_def)
qed

lemma round64_at_least:
  assumes d: "is_double d" and le: "d \<le> x"
  shows "at_least (round64 x) d"
proof -
  consider "x = 0" | "0 < x" | "x < 0" by linarith
  then show ?thesis
  proof cases
    case 1
    with le show ?thesis by (simp add: round64_def)
  next
    case 2
    define q where "q = quantum x"
    define n where "n = rne (x / q)"
    have q: "0 < q" by (simp add: q_def quantum_pos)
    have n0: "0 \<le> n" unfolding n_def using 2 q by (intro int_le_rne) simp
    have key: "d \<le> of_int n * q"
    proof (cases "d \<le> 0")
      case True
      have "0 \<le> of_int n * q" using n0 q by simp
      with True show ?thesis by linarith
    next
      case False
      then have dpos: "0 < d" by simp
      then have d0: "d \<noteq> 0" by simp
      from double_decomp [OF d d0] obtain m :: int
        where m: "0 < m" "\<bar>d\<bar> = of_int m * quantum d" by blast
      have qle: "quantum d \<le> q"
        unfolding q_def using d0 dpos le 2 by (intro quantum_mono) simp_all
      show ?thesis
      proof (cases "quantum d = q")
        case True
        have "of_int m = d / q" using m(2) dpos q True by simp
        also have "\<dots> \<le> x / q" using le q by (simp add: divide_right_mono)
        finally have "m \<le> n" unfolding n_def by (rule int_le_rne)
        then have "of_int m * q \<le> of_int n * q" using q by simp
        with m(2) dpos True show ?thesis by simp
      next
        case False
        with qle have lt: "quantum d < q" by simp
        have ex: "max (expo d) (- 1022) < max (expo x) (- 1022)"
        proof (rule ccontr)
          assume "\<not> ?thesis"
          then have "max (expo x) (- 1022) \<le> max (expo d) (- 1022)"
            by (simp only: not_less)
          then have "max (expo x) (- 1022) - 52 \<le> max (expo d) (- 1022) - 52"
            by (rule diff_right_mono)
          then have "(2::real) powi (max (expo x) (- 1022) - 52)
              \<le> 2 powi (max (expo d) (- 1022) - 52)"
            by (intro power_int_increasing) simp_all
          with lt show False by (simp add: quantum_def q_def)
        qed
        then have e1: "expo d < expo x" and e2: "max (expo x) (- 1022) = expo x"
          by (auto simp: max_def split: if_splits)
        have x0: "x \<noteq> 0" using 2 by simp
        have "d < 2 powi (expo d + 1)"
          using expo_bounds(2) [OF d0] dpos by simp
        also have "\<dots> \<le> 2 powi (expo x)"
          using e1 by (intro power_int_increasing) simp_all
        finally have dlt: "d < 2 powi (expo x)" .
        have pe: "(2::real) powi (expo x) = 2 ^ 52 * q"
        proof -
          have "(2::real) powi (52 + (expo x - 52)) = 2 powi 52 * 2 powi (expo x - 52)"
            by (rule power_int_add) simp
          then show ?thesis by (simp add: q_def quantum_def e2)
        qed
        have "2 powi (expo x) \<le> x"
          using expo_bounds(1) [OF x0] 2 by simp
        then have "2 ^ 52 * q \<le> x" by (simp add: pe)
        then have "of_int (2 ^ 52) \<le> x / q"
          using q by (simp add: pos_le_divide_eq)
        then have "2 ^ 52 \<le> n" unfolding n_def by (rule int_le_rne)
        then have "of_int (2 ^ 52) * q \<le> of_int n * q"
          using q by (simp only: mult_le_cancel_right_pos of_int_le_iff)
        then have "2 powi (expo x) \<le> of_int n * q" by (simp add: pe)
        with dlt show ?thesis by linarith
      qed
    qed
    have r: "round64 x =
        (if n = 0 then Fin 0 else if 2 ^ 1024 \<le> of_int n * q then PInf else Fin (of_int n * q))"
      using round64_pos [OF 2] by (simp add: n_def q_def)
    show ?thesis
      using key by (auto simp: r)
  next
    case 3
    define q where "q = quantum x"
    define n where "n = rne (- x / q)"
    have q: "0 < q" by (simp add: q_def quantum_pos)
    have n0: "0 \<le> n"
      unfolding n_def using 3 q by (intro int_le_rne) (simp add: divide_nonpos_pos)
    from 3 le have dneg: "d < 0" and d0: "d \<noteq> 0" by simp_all
    have x0: "x \<noteq> 0" using 3 by simp
    from double_decomp [OF d d0] obtain m :: int
      where m: "0 < m" "\<bar>d\<bar> = of_int m * quantum d" "\<bar>d\<bar> < 2 ^ 1024" by blast
    have "q \<le> quantum d"
      unfolding q_def using x0 3 le by (intro quantum_mono) simp_all
    then obtain k :: nat where k: "quantum d = 2 ^ k * q"
      unfolding q_def by (rule quantum_ratio)
    have dq: "- d = of_int (m * 2 ^ k) * q"
      using m(2) dneg k by simp
    have "- x / q \<le> - d / q"
      using le q by (simp add: divide_right_mono)
    also have "- d / q = of_int (m * 2 ^ k)"
      using dq q by simp
    finally have "n \<le> m * 2 ^ k" unfolding n_def by (rule rne_le_int)
    then have "of_int n * q \<le> of_int (m * 2 ^ k) * q"
      using q by (simp only: mult_le_cancel_right_pos of_int_le_iff)
    then have key: "of_int n * q \<le> - d" by (simp only: dq)
    have no: "\<not> 2 ^ 1024 \<le> of_int n * q"
      using key m(3) dneg by simp
    have r: "round64 x =
        (if n = 0 then NegZero else if 2 ^ 1024 \<le> of_int n * q then NInf
         else Fin (- (of_int n * q)))"
      using round64_neg [OF 3] by (simp add: n_def q_def)
    show ?thesis
      using key no dneg by (auto simp: r)
  qed
qed

lemma round64_exact:
  assumes x: "x \<noteq> 0" and m: "\<bar>x\<bar> / quantum x = of_int m" and b: "\<bar>x\<bar> < 2 ^ 1024"
  shows "round64 x = Fin x"
proof -
  have q: "0 < quantum x" by (rule quantum_pos)
  have r: "rne (\<bar>x\<bar> / quantum x) = m" by (simp add: m rne_of_int)
  have eq: "of_int m * quantum x = \<bar>x\<bar>"
    using m q by (simp add: field_simps)
  have m0: "m \<noteq> 0" using eq x by auto
  have "sgn x * \<bar>x\<bar> = x" by (simp add: sgn_mult_abs)
  then show ?thesis
    using x m0 b by (simp add: round64_def Let_def r eq)
qed

lemma is_double_of_int:
  assumes "\<bar>i\<bar> \<le> 2 ^ 53"
  shows "is_double (of_int i)"
proof (cases "i = 0")
  case True
  then show ?thesis by (simp add: is_double_def round64_def)
next
  case False
  define x :: real where "x = of_int i"
  have x0: "x \<noteq> 0" using False by (simp add: x_def)
  have "1 \<le> \<bar>i\<bar>" using False by simp
  then have x1: "1 \<le> \<bar>x\<bar>" unfolding x_def by (metis of_int_1_le_iff of_int_abs)
  have "real_of_int \<bar>i\<bar> \<le> of_int (2 ^ 53)" using assms by (simp only: of_int_le_iff)
  then have x53: "\<bar>x\<bar> \<le> 2 ^ 53" by (simp add: x_def)
  define e where "e = expo x"
  have lo: "2 powi e \<le> \<bar>x\<bar>" and hi: "\<bar>x\<bar> < 2 powi (e + 1)"
    using expo_bounds [OF x0] by (simp_all add: e_def)
  have e0: "0 \<le> e"
  proof (rule ccontr)
    assume "\<not> 0 \<le> e"
    then have "e + 1 \<le> 0" by simp
    then have "(2::real) powi (e + 1) \<le> 2 powi 0" by (intro power_int_increasing) simp_all
    with hi x1 show False by simp
  qed
  have e53: "e \<le> 53"
  proof (rule ccontr)
    assume "\<not> e \<le> 53"
    then have "53 < e" by simp
    then have "(2::real) powi 53 < 2 powi e" by (intro power_int_strict_increasing) simp_all
    with lo x53 show False by simp
  qed
  have qe: "quantum x = 2 powi (e - 52)"
    using e0 by (simp add: quantum_def e_def max_def)
  have "\<exists>m. \<bar>x\<bar> / quantum x = of_int m"
  proof (cases "e \<le> 52")
    case True
    have "1 / (2::real) powi (e - 52) = 2 powi (- (e - 52))"
      by (simp only: power_int_minus divide_inverse mult_1)
    also have "\<dots> = 2 ^ nat (52 - e)" using True by (simp add: power_int_def)
    finally have inv: "1 / (2::real) powi (e - 52) = 2 ^ nat (52 - e)" .
    have "\<bar>x\<bar> / quantum x = \<bar>x\<bar> * (1 / quantum x)" by simp
    also have "\<dots> = \<bar>x\<bar> * 2 ^ nat (52 - e)" by (simp only: qe inv)
    also have "\<dots> = of_int (\<bar>i\<bar> * 2 ^ nat (52 - e))" by (simp add: x_def)
    finally show ?thesis by blast
  next
    case False
    with e53 have e: "e = 53" by simp
    from lo e x53 have "\<bar>x\<bar> = 2 ^ 53" by simp
    then have "\<bar>x\<bar> / quantum x = of_int (2 ^ 52)" by (simp add: qe e)
    then show ?thesis by blast
  qed
  then obtain m :: int where m: "\<bar>x\<bar> / quantum x = of_int m" by blast
  have "\<bar>x\<bar> < 2 ^ 1024"
  proof -
    have "(2::real) ^ 53 < 2 ^ 1024" by (intro power_strict_increasing) simp_all
    with x53 show ?thesis by linarith
  qed
  from round64_exact [OF x0 m this] show ?thesis by (simp add: is_double_def x_def)
qed


lemma round64_numeral:
  "numeral k \<le> (9007199254740992::int) \<Longrightarrow> round64 (numeral k) = Fin (numeral k)"
  using is_double_of_int [of "numeral k"] by (simp add: is_double_def)

lemma round64_neg_numeral:
  "numeral k \<le> (9007199254740992::int) \<Longrightarrow> round64 (- numeral k) = Fin (- numeral k)"
  using is_double_of_int [of "- numeral k"] by (simp add: is_double_def)

lemma round64_zero: "round64 0 = Fin 0"
  by (simp add: round64_def)

lemma round64_one: "round64 1 = Fin 1"
  using is_double_of_int [of 1] by (simp add: is_double_def)

lemma round64_eval:
  assumes "2 powi e \<le> \<bar>x\<bar>" and "\<bar>x\<bar> < 2 powi (e + 1)"
  shows "round64 x =
     (let q = 2 powi (max e (- 1022) - 52); n = rne (\<bar>x\<bar> / q)
      in if n = 0 then (if x < 0 then NegZero else Fin 0)
         else if 2 ^ 1024 \<le> of_int n * q then (if x < 0 then NInf else PInf)
         else Fin (sgn x * (of_int n * q)))"
proof -
  have e: "expo x = e" using assms by (rule expo_eqI)
  have "0 < \<bar>x\<bar>"
    using assms(1) zero_less_power_int [of "2::real" e] by linarith
  then have "x \<noteq> 0" by simp
  then show ?thesis by (simp add: round64_def quantum_def e Let_def)
qed

lemmas round64_simps = round64_numeral round64_neg_numeral round64_zero round64_one

section \<open>The rate limiter's call\<close>

lemma at_least_less: "at_least v b \<Longrightarrow> t < b \<Longrightarrow> js_less (Fin t) v"
  by (cases v) auto



lemma at_least_cases:
  assumes "at_least v b" and "0 < b"
  obtains "v = PInf" | w where "v = Fin w" and "b \<le> w"
  using assms by (cases v) auto

lemma js_add_at_least:
  assumes "at_least v k" and "is_double (t + k)"
  shows "at_least (js_add (Fin t) v) (t + k)"
proof (cases v)
  case (Fin w)
  with assms(1) have "t + k \<le> t + w" by simp
  with assms(2) show ?thesis unfolding Fin by (simp add: round64_at_least)
qed (use assms in auto)


lemma less_admitted:
  assumes "js_less (Fin t') v" and "\<not> js_less (Fin u) v"
  shows "t' < u"
  using assms by (cases v) auto

lemma Sampler_new_start:
  "nextTraceStart (Sampler_new r start) = start"
  by (simp add: Sampler_new_def Let_def)




lemma Sampler_shouldTrace_window:
  "traceWindow (snd (Sampler_shouldTrace s now)) = traceWindow s"
  by (simp add: Sampler_shouldTrace_def)

lemma Sampler_shouldTrace_next:
  "nextTraceStart (snd (Sampler_shouldTrace s now)) =
     (if js_less now (nextTraceStart s) then nextTraceStart s
      else js_add now (traceWindow s))"
  by (simp add: Sampler_shouldTrace_def)





subsection \<open>Sequences of calls\<close>








lemma Sampler_calls_fst_Cons:
  "fst (Sampler_calls s (t # ts)) =
     fst (Sampler_shouldTrace s t) # fst (Sampler_calls (snd (Sampler_shouldTrace s t)) ts)"
  by (simp split: prod.splits)

lemma below_next_preserved:
  assumes "js_less (Fin t') (nextTraceStart s)" and "at_least (traceWindow s) 0"
    and "is_double u"
  shows "js_less (Fin t') (nextTraceStart (snd (Sampler_shouldTrace s (Fin u))))"
proof (cases "js_less (Fin u) (nextTraceStart s)")
  case True
  with assms(1) show ?thesis by (simp add: Sampler_shouldTrace_next)
next
  case False
  have "is_double (u + 0)" using assms(3) by simp
  from js_add_at_least [OF assms(2) this]
  have "at_least (js_add (Fin u) (traceWindow s)) u" by simp
  moreover have "t' < u" using assms(1) False by (rule less_admitted)
  ultimately have "js_less (Fin t') (js_add (Fin u) (traceWindow s))"
    by (rule at_least_less)
  with False show ?thesis by (simp add: Sampler_shouldTrace_next)
qed

lemma rejected_before:
  assumes "at_least (traceWindow s) 0" and "\<forall>u \<in> set ts. is_double u"
    and "i < length ts" and "js_less (Fin (ts ! i)) (nextTraceStart s)"
  shows "\<not> fst (Sampler_calls s (map Fin ts)) ! i"
  using assms
proof (induction ts arbitrary: s i)
  case Nil
  then show ?case by simp
next
  case (Cons t ts)
  show ?case
  proof (cases i)
    case 0
    with Cons.prems show ?thesis
      by (simp add: Sampler_shouldTrace_def Sampler_calls_fst_Cons del: Sampler_calls.simps(2))
  next
    case (Suc j)
    let ?s' = "snd (Sampler_shouldTrace s (Fin t))"
    have "js_less (Fin (ts ! j)) (nextTraceStart ?s')"
      by (rule below_next_preserved) (use Cons.prems Suc in simp_all)
    then have "\<not> fst (Sampler_calls ?s' (map Fin ts)) ! j"
      by (intro Cons.IH) (use Cons.prems Suc in \<open>simp_all add: Sampler_shouldTrace_window\<close>)
    with Suc show ?thesis
      by (simp add: Sampler_calls_fst_Cons del: Sampler_calls.simps(2))
  qed
qed

lemma admissions_apart:
  assumes "at_least (traceWindow s) 0" and "\<forall>u \<in> set ts. is_double u"
    and "i < j" and "j < length ts"
    and "fst (Sampler_calls s (map Fin ts)) ! i" and "fst (Sampler_calls s (map Fin ts)) ! j"
  shows "\<not> js_less (Fin (ts ! j)) (js_add (Fin (ts ! i)) (traceWindow s))"
  using assms
proof (induction ts arbitrary: s i j)
  case Nil
  then show ?case by simp
next
  case (Cons t ts)
  from Cons.prems obtain j' where j: "j = Suc j'" by (cases j) auto
  let ?s' = "snd (Sampler_shouldTrace s (Fin t))"
  have w': "traceWindow ?s' = traceWindow s" by (rule Sampler_shouldTrace_window)
  have resj: "fst (Sampler_calls ?s' (map Fin ts)) ! j'"
    using Cons.prems(6) j by (simp add: Sampler_calls_fst_Cons del: Sampler_calls.simps(2))
  show ?case
  proof (cases i)
    case 0
    with Cons.prems(5) have adm: "\<not> js_less (Fin t) (nextTraceStart s)"
      by (auto simp: Sampler_calls_fst_Cons Sampler_shouldTrace_def
          simp del: Sampler_calls.simps(2) split: if_splits)
    then have n': "nextTraceStart ?s' = js_add (Fin t) (traceWindow s)"
      by (simp add: Sampler_shouldTrace_next)
    have "\<not> js_less (Fin (ts ! j')) (nextTraceStart ?s')"
      using rejected_before [of ?s' ts j'] resj Cons.prems(1,2,4) j
      by (auto simp: w')
    with 0 j show ?thesis by (simp add: n')
  next
    case (Suc i')
    have resi: "fst (Sampler_calls ?s' (map Fin ts)) ! i'"
      using Cons.prems(5) Suc by (simp add: Sampler_calls_fst_Cons del: Sampler_calls.simps(2))
    have "\<not> js_less (Fin (ts ! j')) (js_add (Fin (ts ! i')) (traceWindow ?s'))"
      by (rule Cons.IH [of ?s' i' j']) (use Cons.prems Suc j resi resj in \<open>simp_all add: w'\<close>)
    with Suc j show ?thesis by (simp add: w')
  qed
qed



lemma Sampler_calls_replicate_rejected:
  "js_less t (nextTraceStart s) \<Longrightarrow> Sampler_calls s (replicate n t) = (replicate n False, s)"
  by (induction n) (simp_all add: Sampler_shouldTrace_def)

text \<open>
  C9. A rejected call leaves the limiter as it was, so any number of further calls at the
  same time are all rejected and leave it as it was.
\<close>

theorem C9_rejection_idempotent:
  "\<not> fst (Sampler_shouldTrace s t) \<Longrightarrow>
     snd (Sampler_shouldTrace s t) = s
     \<and> Sampler_calls s (replicate n t) = (replicate n False, s)"
proof -
  assume "\<not> fst (Sampler_shouldTrace s t)"
  then have less: "js_less t (nextTraceStart s)"
    by (simp add: Sampler_shouldTrace_def split: if_splits)
  then have "snd (Sampler_shouldTrace s t) = s"
    by (simp add: Sampler_shouldTrace_def)
  moreover have "Sampler_calls s (replicate n t) = (replicate n False, s)"
    using less by (rule Sampler_calls_replicate_rejected)
  ultimately show ?thesis by simp
qed

theorem C9_rejection_idempotent_witness:
  "\<not> fst (Sampler_shouldTrace \<lparr>traceWindow = Fin 500, nextTraceStart = Fin 500\<rparr> (Fin 100))
   \<and> snd (Sampler_shouldTrace \<lparr>traceWindow = Fin 500, nextTraceStart = Fin 500\<rparr> (Fin 100))
       = \<lparr>traceWindow = Fin 500, nextTraceStart = Fin 500\<rparr>
   \<and> Sampler_calls \<lparr>traceWindow = Fin 500, nextTraceStart = Fin 500\<rparr>
         [Fin 100, Fin 100, Fin 100]
       = ([False, False, False], \<lparr>traceWindow = Fin 500, nextTraceStart = Fin 500\<rparr>)"
  using C9_rejection_idempotent
    [of "\<lparr>traceWindow = Fin 500, nextTraceStart = Fin 500\<rparr>" "Fin 100" 3]
  by (simp add: Sampler_shouldTrace_def numeral_3_eq_3)




text \<open>
  C10, as the claim states it, fails. A limiter built for \<open>8388607 / 1048576\<close>
  (that is \<open>8 - 1 / 2 ^ 20\<close>) admissions per second has a window a little above 125.
  After a call admitted at 1700000000000 the stored sum rounds to 1700000000125, so a call
  at 1700000000125, less than one window after the first, is admitted. And a call whose
  time is \<^verbatim>\<open>NaN\<close> is admitted and stores \<^verbatim>\<open>NaN\<close>, after which every call is admitted:
  with window 500, calls at 100, \<^verbatim>\<open>NaN\<close> and 200 are all admitted.
\<close>

theorem C10_counterexample:
  "traceWindow (Sampler_new (Fin (8388607 / 1048576)) (Fin 0)) = Fin (8796094070784125 / 2 ^ 46)
   \<and> (1700000000125::real) < 1700000000000 + 8796094070784125 / 2 ^ 46
   \<and> fst (Sampler_calls (Sampler_new (Fin (8388607 / 1048576)) (Fin 0))
        [Fin 1700000000000, Fin 1700000000125]) = [True, True]
   \<and> fst (Sampler_calls \<lparr>traceWindow = Fin 500, nextTraceStart = Fin 0\<rparr>
        [Fin 100, NaN, Fin 200]) = [True, True, True]"
proof -
  have w: "traceWindow (Sampler_new (Fin (8388607 / 1048576)) (Fin 0))
      = Fin (8796094070784125 / 2 ^ 46)"
    by (simp add: Sampler_new_def js_greater_def Let_def round64_eval [of 6] rne_def)
  have n: "nextTraceStart (Sampler_new (Fin (8388607 / 1048576)) (Fin 0)) = Fin 0"
    by (rule Sampler_new_start)
  have "fst (Sampler_calls (Sampler_new (Fin (8388607 / 1048576)) (Fin 0))
        [Fin 1700000000000, Fin 1700000000125]) = [True, True]"
    by (simp add: Sampler_shouldTrace_def w n round64_eval [of 40] rne_def Let_def)
  moreover have "fst (Sampler_calls \<lparr>traceWindow = Fin 500, nextTraceStart = Fin 0\<rparr>
        [Fin 100, NaN, Fin 200]) = [True, True, True]"
    by (simp add: Sampler_shouldTrace_def round64_simps)
  ultimately show ?thesis using w by simp
qed

text \<open>
  C10, amended. With a finite positive window and call times that are finite numbers,
  once a call at time \<open>t\<close> is admitted, every later call at a time below the stored sum of
  \<open>t\<close> and the window (rounded to a double) is rejected, wherever it stands in the sequence
  of later calls and whether its time is before or after \<open>t\<close>. Hence in any sequence of
  such calls (call times in any order), of two admitted calls the later one's time is not
  below the stored sum of the earlier one's time and the window.
\<close>

theorem C10_one_admission_per_window:
  "(traceWindow s = Fin w \<and> 0 < w \<and> is_double t \<and> (\<forall>u \<in> set ts. is_double u)
      \<and> fst (Sampler_shouldTrace s (Fin t))
      \<and> i < length ts \<and> js_less (Fin (ts ! i)) (js_add (Fin t) (Fin w)) \<longrightarrow>
        \<not> fst (Sampler_calls (snd (Sampler_shouldTrace s (Fin t))) (map Fin ts)) ! i)
   \<and> (traceWindow s = Fin w \<and> 0 < w \<and> (\<forall>u \<in> set ts. is_double u)
      \<and> i < j \<and> j < length ts
      \<and> fst (Sampler_calls s (map Fin ts)) ! i \<and> fst (Sampler_calls s (map Fin ts)) ! j \<longrightarrow>
        \<not> js_less (Fin (ts ! j)) (js_add (Fin (ts ! i)) (Fin w)))"
proof (intro conjI impI)
  assume a: "traceWindow s = Fin w \<and> 0 < w \<and> is_double t \<and> (\<forall>u \<in> set ts. is_double u)
      \<and> fst (Sampler_shouldTrace s (Fin t))
      \<and> i < length ts \<and> js_less (Fin (ts ! i)) (js_add (Fin t) (Fin w))"
  let ?s' = "snd (Sampler_shouldTrace s (Fin t))"
  have w': "at_least (traceWindow ?s') 0"
    using a by (simp add: Sampler_shouldTrace_window)
  have "\<not> js_less (Fin t) (nextTraceStart s)"
    using a by (simp add: Sampler_shouldTrace_def split: if_splits)
  then have n': "nextTraceStart ?s' = js_add (Fin t) (Fin w)"
    using a by (simp add: Sampler_shouldTrace_next)
  show "\<not> fst (Sampler_calls ?s' (map Fin ts)) ! i"
    by (rule rejected_before [OF w']) (use a n' in simp_all)
next
  assume a: "traceWindow s = Fin w \<and> 0 < w \<and> (\<forall>u \<in> set ts. is_double u)
      \<and> i < j \<and> j < length ts
      \<and> fst (Sampler_calls s (map Fin ts)) ! i \<and> fst (Sampler_calls s (map Fin ts)) ! j"
  have "\<not> js_less (Fin (ts ! j)) (js_add (Fin (ts ! i)) (traceWindow s))"
    by (rule admissions_apart) (use a in simp_all)
  with a show "\<not> js_less (Fin (ts ! j)) (js_add (Fin (ts ! i)) (Fin w))" by simp
qed

theorem C10_one_admission_per_window_witness:
  "traceWindow \<lparr>traceWindow = Fin 500, nextTraceStart = Fin 0\<rparr> = Fin 500 \<and> (0::real) < 500
   \<and> is_double 100 \<and> is_double 700 \<and> is_double 50 \<and> is_double 599
   \<and> fst (Sampler_shouldTrace \<lparr>traceWindow = Fin 500, nextTraceStart = Fin 0\<rparr> (Fin 100))
   \<and> (2::nat) < length [700, 50, 599 :: real]
   \<and> js_less (Fin ([700, 50, 599] ! 2)) (js_add (Fin 100) (Fin 500))
   \<and> \<not> fst (Sampler_calls
            (snd (Sampler_shouldTrace \<lparr>traceWindow = Fin 500, nextTraceStart = Fin 0\<rparr> (Fin 100)))
            (map Fin [700, 50, 599])) ! 2
   \<and> (0::nat) < 1 \<and> (1::nat) < length [100, 700 :: real]
   \<and> fst (Sampler_calls \<lparr>traceWindow = Fin 500, nextTraceStart = Fin 0\<rparr> (map Fin [100, 700])) ! 0
   \<and> fst (Sampler_calls \<lparr>traceWindow = Fin 500, nextTraceStart = Fin 0\<rparr> (map Fin [100, 700])) ! 1
   \<and> \<not> js_less (Fin ([100, 700] ! 1)) (js_add (Fin ([100, 700] ! 0)) (Fin 500))"
  using C10_one_admission_per_window
    [of "\<lparr>traceWindow = Fin 500, nextTraceStart = Fin 0\<rparr>" 500 100 "[700, 50, 599]" 2]
    C10_one_admission_per_window
    [of "\<lparr>traceWindow = Fin 500, nextTraceStart = Fin 0\<rparr>" 500 100 "[100, 700]" 0 1]
    is_double_of_int [of 100] is_double_of_int [of 700] is_double_of_int [of 50]
    is_double_of_int [of 599]
  by (simp add: Sampler_shouldTrace_def round64_simps)




section \<open>The registry's call\<close>

lemmas eval_defs =
  EndToEndTracePolicy_call_def EndToEndTracePolicy_shouldTrace_def EndToEndTracePolicy_new_def
  TracePolicy_shouldTrace_def traceContext_options_truthy_def
  MultiSampler_call_def MultiSampler_shouldTrace_def getSampler_def options_name_def endpoint_key_def
  limiter_of_def
  request_def MultiSampler_new_def Sampler_new_def Sampler_shouldTrace_def js_greater_def
  js_strict_eq_def Object_prototype_keys_def example_policy_def round64_simps Let_def

lemma MultiSampler_call_unnamed:
  "endpoint_key d = None \<Longrightarrow>
   MultiSampler_call m d =
     (Inr (fst (Sampler_shouldTrace (unnamedSampler m) (timestamp d))),
      m\<lparr>unnamedSampler := snd (Sampler_shouldTrace (unnamedSampler m) (timestamp d))\<rparr>)"
  by (auto simp: endpoint_key_def MultiSampler_call_def MultiSampler_shouldTrace_def
      getSampler_def split: option.splits if_splits prod.splits)

lemma MultiSampler_call_seen:
  "endpoint_key d = Some n \<Longrightarrow> samplers m n = Some s \<Longrightarrow>
   MultiSampler_call m d =
     (Inr (fst (Sampler_shouldTrace s (timestamp d))),
      m\<lparr>samplers := (samplers m)(n \<mapsto> snd (Sampler_shouldTrace s (timestamp d)))\<rparr>)"
  by (auto simp: endpoint_key_def MultiSampler_call_def MultiSampler_shouldTrace_def
      getSampler_def split: option.splits if_splits prod.splits)

lemma MultiSampler_call_inherited:
  "endpoint_key d = Some n \<Longrightarrow> samplers m n = None \<Longrightarrow> n \<in> set Object_prototype_keys \<Longrightarrow>
   MultiSampler_call m d = (Inl TypeError, m)"
  by (auto simp: endpoint_key_def MultiSampler_call_def MultiSampler_shouldTrace_def
      getSampler_def split: option.splits if_splits prod.splits)

lemma MultiSampler_call_new:
  "endpoint_key d = Some n \<Longrightarrow> samplers m n = None \<Longrightarrow> n \<notin> set Object_prototype_keys \<Longrightarrow>
   MultiSampler_call m d =
     (Inr (fst (Sampler_shouldTrace (Sampler_new (samplesPerSecond m) (samplerStart m))
                  (timestamp d))),
      m\<lparr>samplers := (samplers m)(n \<mapsto>
           snd (Sampler_shouldTrace (Sampler_new (samplesPerSecond m) (samplerStart m))
                  (timestamp d)))\<rparr>)"
  by (auto simp: endpoint_key_def MultiSampler_call_def MultiSampler_shouldTrace_def
      getSampler_def split: option.splits if_splits prod.splits)

lemma MultiSampler_call_cases:
  fixes d :: request_details and m :: MultiSampler
  obtains (unnamed) "endpoint_key d = None"
  | (seen) n s where "endpoint_key d = Some n" "samplers m n = Some s"
  | (inherited) n where "endpoint_key d = Some n" "samplers m n = None"
      "n \<in> set Object_prototype_keys"
  | (new) n where "endpoint_key d = Some n" "samplers m n = None"
      "n \<notin> set Object_prototype_keys"
  by (cases "endpoint_key d"; cases "samplers m (the (endpoint_key d))") auto

lemma MultiSampler_call_config:
  "samplesPerSecond (snd (MultiSampler_call m d)) = samplesPerSecond m
   \<and> samplerStart (snd (MultiSampler_call m d)) = samplerStart m"
  by (cases rule: MultiSampler_call_cases [where d = d and m = m])
    (simp_all add: MultiSampler_call_unnamed MultiSampler_call_seen
      MultiSampler_call_inherited MultiSampler_call_new)

lemma MultiSampler_call_frame:
  "k \<noteq> endpoint_key d \<Longrightarrow> limiter_of (snd (MultiSampler_call m d)) k = limiter_of m k"
  by (cases rule: MultiSampler_call_cases [where d = d and m = m])
    (auto simp: MultiSampler_call_unnamed MultiSampler_call_seen
      MultiSampler_call_inherited MultiSampler_call_new limiter_of_def split: option.splits)

lemma agree_on_other:
  "agree_on k m1 m2 \<Longrightarrow> endpoint_key d \<noteq> k \<Longrightarrow> agree_on k (snd (MultiSampler_call m1 d)) m2"
  using MultiSampler_call_frame [of k d m1] MultiSampler_call_config [of m1 d]
  by (auto simp: agree_on_def)

lemma agree_on_same:
  assumes "agree_on k m1 m2" and "endpoint_key d = k"
  shows "fst (MultiSampler_call m1 d) = fst (MultiSampler_call m2 d)
    \<and> agree_on k (snd (MultiSampler_call m1 d)) (snd (MultiSampler_call m2 d))"
proof (cases rule: MultiSampler_call_cases [where d = d and m = m1])
  case unnamed
  with assms show ?thesis
    by (auto simp: MultiSampler_call_unnamed agree_on_def limiter_of_def)
next
  case (seen n s)
  with assms have "samplers m2 n = Some s"
    by (auto simp: agree_on_def limiter_of_def)
  with seen assms show ?thesis
    by (auto simp: MultiSampler_call_seen agree_on_def limiter_of_def)
next
  case (inherited n)
  with assms have "samplers m2 n = None"
    by (auto simp: agree_on_def limiter_of_def)
  with inherited assms show ?thesis
    by (auto simp: MultiSampler_call_inherited agree_on_def limiter_of_def)
next
  case (new n)
  with assms have "samplers m2 n = None"
    by (auto simp: agree_on_def limiter_of_def)
  with new assms show ?thesis
    by (auto simp: MultiSampler_call_new agree_on_def limiter_of_def)
qed

lemma MultiSampler_calls_fst_Cons:
  "fst (MultiSampler_calls m (d # ds)) =
     fst (MultiSampler_call m d) # fst (MultiSampler_calls (snd (MultiSampler_call m d)) ds)"
  by (simp split: prod.splits)

lemma outcomes_of_key:
  "agree_on k m1 m2 \<Longrightarrow>
   map snd (filter (\<lambda>(d, r). endpoint_key d = k) (zip ds (fst (MultiSampler_calls m1 ds))))
     = fst (MultiSampler_calls m2 (filter (\<lambda>d. endpoint_key d = k) ds))"
proof (induction ds arbitrary: m1 m2)
  case Nil
  then show ?case by simp
next
  case (Cons d ds)
  show ?case
  proof (cases "endpoint_key d = k")
    case True
    from agree_on_same [OF Cons.prems True]
    have r: "fst (MultiSampler_call m1 d) = fst (MultiSampler_call m2 d)"
      and a: "agree_on k (snd (MultiSampler_call m1 d)) (snd (MultiSampler_call m2 d))"
      by simp_all
    from Cons.IH [OF a] r True show ?thesis
      by (simp add: MultiSampler_calls_fst_Cons del: MultiSampler_calls.simps(2))
  next
    case False
    from agree_on_other [OF Cons.prems False]
    have a: "agree_on k (snd (MultiSampler_call m1 d)) m2" .
    from Cons.IH [OF a] False show ?thesis
      by (simp add: MultiSampler_calls_fst_Cons del: MultiSampler_calls.simps(2))
  qed
qed

text \<open>
  C8. A call of the registry changes no limiter but the one of the request's key (the
  unnamed limiter for a missing or empty name), and neither the rate nor the start. In any
  sequence of calls, the outcomes of the calls with key \<open>k\<close> are the outcomes of those calls
  made alone, in the same order, on the same registry: calls with other keys, however many
  and wherever they stand, change nothing for \<open>k\<close>. With \<open>k = None\<close> this is the unnamed
  limiter among named calls.
\<close>

theorem C8_per_key_independence:
  "(k \<noteq> endpoint_key d \<longrightarrow> limiter_of (snd (MultiSampler_call m d)) k = limiter_of m k)
   \<and> samplesPerSecond (snd (MultiSampler_call m d)) = samplesPerSecond m
   \<and> samplerStart (snd (MultiSampler_call m d)) = samplerStart m
   \<and> map snd (filter (\<lambda>(d, r). endpoint_key d = k) (zip ds (fst (MultiSampler_calls m ds))))
       = fst (MultiSampler_calls m (filter (\<lambda>d. endpoint_key d = k) ds))"
proof (intro conjI impI)
  assume "k \<noteq> endpoint_key d"
  then show "limiter_of (snd (MultiSampler_call m d)) k = limiter_of m k"
    by (rule MultiSampler_call_frame)
next
  show "samplesPerSecond (snd (MultiSampler_call m d)) = samplesPerSecond m"
    and "samplerStart (snd (MultiSampler_call m d)) = samplerStart m"
    using MultiSampler_call_config [of m d] by simp_all
next
  have "agree_on k m m" by (simp add: agree_on_def)
  then show "map snd (filter (\<lambda>(d, r). endpoint_key d = k)
        (zip ds (fst (MultiSampler_calls m ds))))
       = fst (MultiSampler_calls m (filter (\<lambda>d. endpoint_key d = k) ds))"
    by (rule outcomes_of_key)
qed

theorem C8_per_key_independence_witness:
  "None \<noteq> endpoint_key (request (Some ''A'') 0 None)
   \<and> limiter_of (snd (MultiSampler_call (MultiSampler_new (Fin 2) (Fin 0) (Fin 0))
                        (request (Some ''A'') 0 None))) None
       = limiter_of (MultiSampler_new (Fin 2) (Fin 0) (Fin 0)) None
   \<and> map snd (filter (\<lambda>(d, r). endpoint_key d = None)
        (zip [request None 0 None, request (Some ''A'') 0 None, request None 100 None,
              request (Some ''B'') 100 None, request (Some '''') 500 None]
           (fst (MultiSampler_calls (MultiSampler_new (Fin 2) (Fin 0) (Fin 0))
              [request None 0 None, request (Some ''A'') 0 None, request None 100 None,
               request (Some ''B'') 100 None, request (Some '''') 500 None]))))
       = fst (MultiSampler_calls (MultiSampler_new (Fin 2) (Fin 0) (Fin 0))
           [request None 0 None, request None 100 None, request (Some '''') 500 None])"
  using C8_per_key_independence [of None "request (Some ''A'') 0 None"
      "MultiSampler_new (Fin 2) (Fin 0) (Fin 0)"
      "[request None 0 None, request (Some ''A'') 0 None, request None 100 None,
        request (Some ''B'') 100 None, request (Some '''') 500 None]"]
  by (simp add: endpoint_key_def options_name_def request_def)

text \<open>
  C5, as the claim states it, fails in its last example: at 2 admissions per second and
  start 0, after the calls for \<open>A\<close> at 0, 100 and 600 the first call for \<open>B\<close>, at 50, is
  admitted, not rejected. The limiter of \<open>B\<close> is new, due at the start 0, and 50 is not
  before 0.
\<close>

theorem C5_counterexample:
  "fst (MultiSampler_calls (MultiSampler_new (Fin 2) (Fin 0) (Fin 0))
          [request (Some ''A'') 0 None, request (Some ''A'') 100 None,
           request (Some ''A'') 600 None, request (Some ''B'') 50 None]) ! 3
     = Inr True"
  by (simp add: eval_defs)

text \<open>
  C5, amended. For a name the registry has not seen (not empty, and not the name of a
  property of \<^verbatim>\<open>Object.prototype\<close>), \<^verbatim>\<open>getSampler\<close> stores and returns a limiter built
  for the registry's rate whose \<^verbatim>\<open>nextTraceStart\<close> is the registry's \<^verbatim>\<open>samplerStart\<close>,
  not the time of the call. At 2 admissions per second and start 0, \<open>A\<close> called at 0, 100
  and 600 gets true, false, true, and \<open>B\<close> first called at 50 gets true.
\<close>

theorem C5_new_key_seeded_at_epoch:
  "(n \<noteq> [] \<and> n \<notin> set Object_prototype_keys \<and> samplers m n = None \<longrightarrow>
      fst (getSampler m (Some n)) = Named n
      \<and> samplers (snd (getSampler m (Some n))) n
          = Some (Sampler_new (samplesPerSecond m) (samplerStart m))
      \<and> map_option nextTraceStart (samplers (snd (getSampler m (Some n))) n)
          = Some (samplerStart m))
   \<and> fst (MultiSampler_calls (MultiSampler_new (Fin 2) now1 (Fin 0))
          [request (Some ''A'') 0 None, request (Some ''A'') 100 None,
           request (Some ''A'') 600 None, request (Some ''B'') 50 None])
       = [Inr True, Inr False, Inr True, Inr True]"
proof (intro conjI impI)
  assume a: "n \<noteq> [] \<and> n \<notin> set Object_prototype_keys \<and> samplers m n = None"
  then show "fst (getSampler m (Some n)) = Named n"
    and "samplers (snd (getSampler m (Some n))) n
          = Some (Sampler_new (samplesPerSecond m) (samplerStart m))"
    and "map_option nextTraceStart (samplers (snd (getSampler m (Some n))) n)
          = Some (samplerStart m)"
    by (simp_all add: getSampler_def Sampler_new_def Let_def)
next
  show "fst (MultiSampler_calls (MultiSampler_new (Fin 2) now1 (Fin 0))
          [request (Some ''A'') 0 None, request (Some ''A'') 100 None,
           request (Some ''A'') 600 None, request (Some ''B'') 50 None])
       = [Inr True, Inr False, Inr True, Inr True]"
    by (simp add: eval_defs)
qed

theorem C5_new_key_seeded_at_epoch_witness:
  "''B'' \<noteq> [] \<and> ''B'' \<notin> set Object_prototype_keys
   \<and> samplers (MultiSampler_new (Fin 2) (Fin 7) (Fin 0)) ''B'' = None
   \<and> fst (getSampler (MultiSampler_new (Fin 2) (Fin 7) (Fin 0)) (Some ''B'')) = Named ''B''
   \<and> samplers (snd (getSampler (MultiSampler_new (Fin 2) (Fin 7) (Fin 0)) (Some ''B''))) ''B''
       = Some \<lparr>traceWindow = Fin 500, nextTraceStart = Fin 0\<rparr>"
  using C5_new_key_seeded_at_epoch [of "''B''" "MultiSampler_new (Fin 2) (Fin 7) (Fin 0)"]
  by (simp add: MultiSampler_new_def Sampler_new_def js_greater_def Object_prototype_keys_def
      round64_simps Let_def)

section \<open>The policy's decision\<close>

text \<open>
  C3. When the filter admits the request and its trace-options flag is present and not
  zero, the decision is true and the policy is left as it was, whatever the state of the
  rate stage. When the filter admits it and the flag is absent or zero, the decision is
  the rate stage's. When the filter rejects it, the decision is false, flag or no flag.
\<close>

theorem C3_active_trace_short_circuit:
  "(builtinTracePolicy p d \<and> traceContext_options_truthy d \<longrightarrow>
      EndToEndTracePolicy_shouldTrace p d = Inr (True, p))
   \<and> (builtinTracePolicy p d \<and> \<not> traceContext_options_truthy d \<longrightarrow>
      EndToEndTracePolicy_shouldTrace p d =
        (case TracePolicy_shouldTrace (sampler p) d of
           Inl e \<Rightarrow> Inl e
         | Inr (b, pol') \<Rightarrow> Inr (b, p\<lparr>sampler := pol'\<rparr>)))
   \<and> (\<not> builtinTracePolicy p d \<longrightarrow> EndToEndTracePolicy_shouldTrace p d = Inr (False, p))
   \<and> traceContext_options_truthy d =
       (\<exists>tc flag. traceContext d = Some tc \<and> tc_options tc = Some flag \<and> flag \<noteq> 0)"
  by (auto simp: EndToEndTracePolicy_shouldTrace_def traceContext_options_truthy_def
      split: option.splits)

theorem C3_active_trace_short_circuit_witness:
  "builtinTracePolicy
     (snd (EndToEndTracePolicy_call (example_policy 2) (request (Some ''A'') 0 None)))
     (request (Some ''A'') 100 (Some 1))
   \<and> traceContext_options_truthy (request (Some ''A'') 100 (Some 1))
   \<and> fst (EndToEndTracePolicy_call
        (snd (EndToEndTracePolicy_call (example_policy 2) (request (Some ''A'') 0 None)))
        (request (Some ''A'') 100 None)) = Inr False
   \<and> fst (EndToEndTracePolicy_call
        (snd (EndToEndTracePolicy_call (example_policy 2) (request (Some ''A'') 0 None)))
        (request (Some ''A'') 100 (Some 1))) = Inr True
   \<and> \<not> traceContext_options_truthy (request (Some ''A'') 100 (Some 0))
   \<and> fst (EndToEndTracePolicy_call
        (snd (EndToEndTracePolicy_call (example_policy 2) (request (Some ''A'') 0 None)))
        (request (Some ''A'') 100 (Some 0))) = Inr False
   \<and> \<not> builtinTracePolicy
        (snd (EndToEndTracePolicy_call (example_policy 2) (request (Some ''A'') 0 None)))
        ((request (Some ''A'') 100 (Some 1))\<lparr>http_method := ''OPTIONS''\<rparr>)
   \<and> fst (EndToEndTracePolicy_call
        (snd (EndToEndTracePolicy_call (example_policy 2) (request (Some ''A'') 0 None)))
        ((request (Some ''A'') 100 (Some 1))\<lparr>http_method := ''OPTIONS''\<rparr>)) = Inr False"
  using C3_active_trace_short_circuit
      [of "snd (EndToEndTracePolicy_call (example_policy 2) (request (Some ''A'') 0 None))"
          "request (Some ''A'') 100 (Some 1)"]
    C3_active_trace_short_circuit
      [of "snd (EndToEndTracePolicy_call (example_policy 2) (request (Some ''A'') 0 None))"
          "request (Some ''A'') 100 (Some 0)"]
    C3_active_trace_short_circuit
      [of "snd (EndToEndTracePolicy_call (example_policy 2) (request (Some ''A'') 0 None))"
          "(request (Some ''A'') 100 (Some 1))\<lparr>http_method := ''OPTIONS''\<rparr>"]
  by (simp add: eval_defs)

lemma EndToEndTracePolicy_calls_filtered:
  "(\<forall>d \<in> set ds. \<not> builtinTracePolicy p d) \<Longrightarrow>
   EndToEndTracePolicy_calls p (ds @ rest)
     = replicate (length ds) (Inr False) @ EndToEndTracePolicy_calls p rest"
  by (induction ds)
    (simp_all add: EndToEndTracePolicy_call_def EndToEndTracePolicy_shouldTrace_def)

text \<open>
  C4. When the filter rejects a request the decision is false and the policy, with every
  limiter of its registry, is left as it was. So after any number of rejected requests the
  decisions on all later requests are what they would be had the rejected ones never been
  made.
\<close>

theorem C4_filtered_requests_leave_state:
  "(\<not> builtinTracePolicy p d \<longrightarrow> EndToEndTracePolicy_shouldTrace p d = Inr (False, p))
   \<and> ((\<forall>d \<in> set ds. \<not> builtinTracePolicy p d) \<longrightarrow>
        EndToEndTracePolicy_calls p (ds @ rest)
          = replicate (length ds) (Inr False) @ EndToEndTracePolicy_calls p rest)"
  using EndToEndTracePolicy_calls_filtered [of ds p rest]
  by (simp add: EndToEndTracePolicy_shouldTrace_def)

theorem C4_filtered_requests_leave_state_witness:
  "\<not> builtinTracePolicy (example_policy 2)
       ((request (Some ''K'') 5 None)\<lparr>http_method := ''OPTIONS''\<rparr>)
   \<and> EndToEndTracePolicy_shouldTrace (example_policy 2)
        ((request (Some ''K'') 5 None)\<lparr>http_method := ''OPTIONS''\<rparr>)
       = Inr (False, example_policy 2)
   \<and> EndToEndTracePolicy_calls (example_policy 2)
        (replicate 3 ((request (Some ''K'') 5 None)\<lparr>http_method := ''OPTIONS''\<rparr>)
           @ [request (Some ''K'') 5 None, request (Some ''K'') 6 None])
       = [Inr False, Inr False, Inr False, Inr True, Inr False]
   \<and> EndToEndTracePolicy_calls (example_policy 2)
        [request (Some ''K'') 5 None, request (Some ''K'') 6 None]
       = [Inr True, Inr False]"
  using C4_filtered_requests_leave_state
      [of "example_policy 2" "(request (Some ''K'') 5 None)\<lparr>http_method := ''OPTIONS''\<rparr>"
          "replicate 3 ((request (Some ''K'') 5 None)\<lparr>http_method := ''OPTIONS''\<rparr>)"
          "[request (Some ''K'') 5 None, request (Some ''K'') 6 None]"]
  by (simp add: eval_defs numeral_3_eq_3)

text \<open>
  C1 does not hold of the code. The constructor's last statement assigns a registry to
  \<^verbatim>\<open>sampler\<close> whatever the rate, so the fixed functions chosen for a zero or negative rate
  are never used. With rate 0 the window is infinite: a key's first request is traced and
  its second is not. With rate -1 the window is negative: a request is traced.
\<close>

theorem C1_rate_stage_is_always_a_registry:
  "sampler (EndToEndTracePolicy_new BuiltinTracePolicy cfg early1 early2 now1 now2)
     = Keyed (MultiSampler_new (samplingRate cfg) now1 now2)
   \<and> EndToEndTracePolicy_calls (example_policy 0)
        [request (Some ''A'') 0 None, request (Some ''A'') 1 None]
       = [Inr True, Inr False]
   \<and> EndToEndTracePolicy_calls (example_policy (- 1)) [request (Some ''A'') 0 None]
       = [Inr True]"
  by (simp add: eval_defs)

end
